theory Spec2Isabelle
  imports Complex_Main
begin

section \<open>Python values and errors\<close>

text \<open>
  The exceptions the modelled functions can raise.  \<open>Unsupported_time_format\<close> is the
  \<open>ValueError\<close> raised explicitly on the last line of \<open>coerce_seconds\<close>;
  \<open>Invalid_literal\<close> is the \<open>ValueError\<close> of the builtins \<open>int()\<close> and \<open>float()\<close>;
  \<open>Range_step_zero\<close> is the \<open>ValueError\<close> of \<open>range\<close> with a zero step;
  \<open>StopIteration\<close> is what \<open>next\<close> raises on an exhausted generator;
  \<open>IndexError\<close> is what indexing a list out of range raises.
  \<open>Unmodelled_literal\<close> is not a Python exception: it marks a string that the builtins
  \<open>int()\<close> or \<open>float()\<close> may accept in a syntax this development does not model
  (exponents, \<open>inf\<close>, \<open>nan\<close>, underscores, non-ASCII digits).
\<close>

datatype py_error =
    Unsupported_time_format
  | Invalid_literal
  | Unmodelled_literal
  | Range_step_zero
  | StopIteration
  | IndexError

text \<open>
  The argument of \<open>coerce_seconds\<close> is typed \<open>Any\<close>.  A Python \<open>float\<close> is represented
  by the rational it denotes (finite floats only); \<open>PyOther\<close> stands for a value of any
  other type.
\<close>

datatype py_value = PyNone | PyInt int | PyFloat rat | PyStr string | PyOther

section \<open>String builtins used by \<open>time_utils.py\<close>\<close>

definition is_space :: "char \<Rightarrow> bool" where
  "is_space c \<longleftrightarrow> (of_char c :: nat) \<in> {9, 10, 11, 12, 13, 28, 29, 30, 31, 32}"

definition is_digit_char :: "char \<Rightarrow> bool" where
  "is_digit_char c \<longleftrightarrow> 48 \<le> (of_char c :: nat) \<and> (of_char c :: nat) \<le> 57"

definition strip :: "string \<Rightarrow> string" where
  "strip s = rev (dropWhile is_space (rev (dropWhile is_space s)))"

definition isdigit :: "string \<Rightarrow> bool" where
  "isdigit s \<longleftrightarrow> s \<noteq> [] \<and> list_all is_digit_char s"

text \<open>\<open>s.replace(".", "", 1)\<close>: the first full stop, if any, is removed.\<close>

definition replace_dot_once :: "string \<Rightarrow> string" where
  "replace_dot_once s = remove1 (CHR ''.'') s"

text \<open>\<open>s.split(":")\<close>: always at least one part.\<close>

fun split_colon :: "string \<Rightarrow> string list" where
  "split_colon [] = [[]]"
| "split_colon (c # cs) =
     (if c = CHR '':'' then [] # split_colon cs
      else (case split_colon cs of
              [] \<Rightarrow> [[c]]
            | p # ps \<Rightarrow> (c # p) # ps))"

definition digits_value :: "string \<Rightarrow> nat" where
  "digits_value s = foldl (\<lambda>acc c. 10 * acc + ((of_char c :: nat) - 48)) 0 s"

text \<open>An optional leading sign, as \<open>int()\<close> and \<open>float()\<close> accept it.\<close>

fun split_sign :: "string \<Rightarrow> bool \<times> string" where
  "split_sign [] = (False, [])"
| "split_sign (c # cs) =
     (if c = CHR ''-'' then (True, cs)
      else if c = CHR ''+'' then (False, cs)
      else (False, c # cs))"

definition plain_chars :: "string \<Rightarrow> bool" where
  "plain_chars s \<longleftrightarrow>
     list_all (\<lambda>c. is_digit_char c \<or> is_space c \<or> c \<in> {CHR ''+'', CHR ''-'', CHR ''.''}) s"

text \<open>
  The builtin \<open>int(s)\<close> on a string: surrounding whitespace is ignored, then an optional
  sign and at least one decimal digit.  A string made only of digits, signs, full stops
  and whitespace that is not of this shape raises \<open>ValueError\<close>; any other string is
  outside the modelled syntax.
\<close>

definition py_int_of_str :: "string \<Rightarrow> py_error + int" where
  "py_int_of_str s =
     (let (neg, body) = split_sign (strip s) in
      if isdigit body then Inr (if neg then - int (digits_value body) else int (digits_value body))
      else if plain_chars s then Inl Invalid_literal
      else Inl Unmodelled_literal)"

text \<open>
  The builtin \<open>float(s)\<close> on a plain decimal literal: optional sign, digits with at most
  one full stop and at least one digit.  The result is the rational the literal denotes.
\<close>

definition py_float_of_str :: "string \<Rightarrow> py_error + rat" where
  "py_float_of_str s =
     (let (neg, body) = split_sign (strip s);
          whole = takeWhile (\<lambda>c. c \<noteq> CHR ''.'') body;
          frac = drop 1 (dropWhile (\<lambda>c. c \<noteq> CHR ''.'') body)
      in if isdigit (whole @ frac) then
           (let m = of_nat (digits_value (whole @ frac)) / of_nat (10 ^ length frac)
            in Inr (if neg then - m else m))
         else if plain_chars s then Inl Invalid_literal
         else Inl Unmodelled_literal)"

text \<open>\<open>int(x)\<close> on a float truncates towards zero.\<close>

definition py_trunc :: "rat \<Rightarrow> int" where
  "py_trunc r = (if 0 \<le> r then \<lfloor>r\<rfloor> else \<lceil>r\<rceil>)"

section \<open>\<open>time_utils.coerce_seconds\<close>\<close>

definition clock_seconds :: "string list \<Rightarrow> py_error + int" where
  "clock_seconds parts =
     (if length parts = 3 then
        (case py_int_of_str (parts ! 0) of Inl e \<Rightarrow> Inl e | Inr hours \<Rightarrow>
         case py_int_of_str (parts ! 1) of Inl e \<Rightarrow> Inl e | Inr minutes \<Rightarrow>
         case py_float_of_str (parts ! 2) of Inl e \<Rightarrow> Inl e | Inr seconds \<Rightarrow>
           Inr (py_trunc (of_int (hours * 3600 + minutes * 60) + seconds)))
      else
        (case py_int_of_str (parts ! 0) of Inl e \<Rightarrow> Inl e | Inr minutes \<Rightarrow>
         case py_float_of_str (parts ! 1) of Inl e \<Rightarrow> Inl e | Inr seconds \<Rightarrow>
           Inr (py_trunc (of_int (0 * 3600 + minutes * 60) + seconds))))"

fun coerce_seconds :: "py_value \<Rightarrow> py_error + int" where
  "coerce_seconds PyNone = Inr 0"
| "coerce_seconds (PyInt n) = Inr n"
| "coerce_seconds (PyFloat r) = Inr (py_trunc r)"
| "coerce_seconds (PyStr v) =
     (let stripped = strip v in
      if stripped = [] then Inr 0
      else if isdigit (replace_dot_once stripped) then
        (case py_float_of_str stripped of Inl e \<Rightarrow> Inl e | Inr f \<Rightarrow> Inr (py_trunc f))
      else
        (let parts = split_colon stripped in
         if length parts \<in> {2, 3} then clock_seconds parts
         else Inl Unsupported_time_format))"
| "coerce_seconds PyOther = Inl Unsupported_time_format"

section \<open>Events, age times and lookup tables of \<open>core.py\<close>\<close>

text \<open>
  A unit event and a build event are the dictionaries built by \<open>_collect_unit_events\<close>
  and \<open>_collect_build_events\<close>.  The age times are the \<open>ages\<close> dictionary built by
  \<open>extract_timings\<close>: every age is present and carries a \<open>click_time\<close> that may be null.
\<close>

record unit_event =
  ev_time :: int
  ev_unit :: "string option"
  ev_line :: string
  ev_object_ids :: "int list"

record build_event =
  b_time :: int
  b_building :: "string option"
  b_object_ids :: "int list"

record age_times =
  feudal_click :: "int option"
  castle_click :: "int option"
  imperial_click :: "int option"

text \<open>
  The module \<open>data_mappings\<close> is imported by \<open>core.py\<close> but its tables are not part of
  the sources at hand; the functions below take the tables they consult as a parameter.
\<close>

record data_mappings =
  GOLD_LINES :: "string set"
  TRASH_LINES :: "string set"
  COUNTER_MAP :: "string \<Rightarrow> string list option"

section \<open>\<open>format_seconds\<close>\<close>

fun nat_str :: "nat \<Rightarrow> string" where
  "nat_str n =
     (if n < 10 then [char_of (48 + n)]
      else nat_str (n div 10) @ [char_of (48 + n mod 10)])"

definition format_seconds :: "int option \<Rightarrow> string option" where
  "format_seconds seconds =
     (case seconds of
        None \<Rightarrow> None
      | Some s \<Rightarrow>
          (let n = nat (max 0 s); minutes = n div 60; sec = n mod 60
           in Some (nat_str minutes @ '':'' @ (if sec < 10 then ''0'' else []) @ nat_str sec)))"

section \<open>\<open>snapshot_composition\<close>\<close>

text \<open>
  \<open>totals\<close> is a Python dictionary from unit line to count; it is kept as an association
  list in insertion order, which is the order \<open>items()\<close> iterates in.
\<close>

type_synonym totals = "(string \<times> int) list"

text \<open>\<open>totals[line] = totals.get(line, 0) + 1\<close>\<close>

fun totals_add :: "totals \<Rightarrow> string \<Rightarrow> totals" where
  "totals_add [] line = [(line, 0 + 1)]"
| "totals_add ((k, n) # rest) line =
     (if k = line then (k, n + 1) # rest else (k, n) # totals_add rest line)"

text \<open>\<open>totals.get(line, default)\<close>\<close>

definition totals_get :: "totals \<Rightarrow> string \<Rightarrow> int \<Rightarrow> int" where
  "totals_get tot line dflt = (case map_of tot line of None \<Rightarrow> dflt | Some v \<Rightarrow> v)"

text \<open>\<open>range(0, stop, step)\<close> as a list, for a step other than zero.\<close>

definition py_range0 :: "int \<Rightarrow> int \<Rightarrow> int list" where
  "py_range0 stop step =
     (if 0 < step then map (\<lambda>k. int k * step) [0 ..< nat ((stop + step - 1) div step)]
      else map (\<lambda>k. int k * step) [0 ..< nat ((- stop - step - 1) div (- step))])"

record snapshot =
  snap_time :: int
  snap_time_str :: "string option"
  totals_by_line :: totals
  military_total :: int
  villagers_total_proxy :: int
  gold_units_total :: int
  trash_units_total :: int
  gold_pct :: "rat option"
  trash_pct :: "rat option"

text \<open>
  The body of the bucket loop after the cursor has advanced.  The quotient of two Python
  integers is a float; it is represented by the rational it rounds.
\<close>

definition make_snapshot :: "data_mappings \<Rightarrow> int \<Rightarrow> totals \<Rightarrow> snapshot" where
  "make_snapshot dm bucket tot =
     (let military = sum_list (map snd (filter (\<lambda>(line, count).
                        line \<notin> {''villager'', ''fishing_ship'', ''trade''}) tot));
          gold_total = sum_list (map snd (filter (\<lambda>(line, count). line \<in> GOLD_LINES dm) tot));
          trash_total = sum_list (map snd (filter (\<lambda>(line, count). line \<in> TRASH_LINES dm) tot))
      in \<lparr> snap_time = bucket,
           snap_time_str = format_seconds (Some bucket),
           totals_by_line = tot,
           military_total = military,
           villagers_total_proxy = totals_get tot ''villager'' 0,
           gold_units_total = gold_total,
           trash_units_total = trash_total,
           gold_pct = (if military \<noteq> 0 then Some (of_int gold_total / of_int military) else None),
           trash_pct = (if military \<noteq> 0 then Some (of_int trash_total / of_int military) else None) \<rparr>)"

text \<open>The inner \<open>while\<close> loop: the cursor \<open>idx\<close> moves over the events up to the bucket.\<close>

function consume_events :: "unit_event list \<Rightarrow> int \<Rightarrow> nat \<Rightarrow> totals \<Rightarrow> nat \<times> totals" where
  "consume_events events_sorted bucket idx tot =
     (if idx < length events_sorted \<and> ev_time (events_sorted ! idx) \<le> bucket
      then consume_events events_sorted bucket (idx + 1)
             (totals_add tot (ev_line (events_sorted ! idx)))
      else (idx, tot))"
  by pat_completeness auto
termination
  by (relation "measure (\<lambda>(es, b, i, t). length es - i)") auto

declare consume_events.simps [simp del]

fun snapshot_loop ::
  "data_mappings \<Rightarrow> unit_event list \<Rightarrow> int list \<Rightarrow> nat \<Rightarrow> totals \<Rightarrow> snapshot list" where
  "snapshot_loop dm events_sorted [] idx tot = []"
| "snapshot_loop dm events_sorted (bucket # buckets) idx tot =
     (case consume_events events_sorted bucket idx tot of
        (idx', tot') \<Rightarrow>
          make_snapshot dm bucket tot' # snapshot_loop dm events_sorted buckets idx' tot')"

text \<open>One round of the loop over the three ages: a non-null click time not yet a bucket is appended.\<close>

definition add_age_bucket :: "int option \<Rightarrow> int list \<Rightarrow> int list" where
  "add_age_bucket time_val buckets =
     (case time_val of
        None \<Rightarrow> buckets
      | Some t \<Rightarrow> if t \<notin> set buckets then buckets @ [t] else buckets)"

definition bucket_boundaries :: "int \<Rightarrow> age_times \<Rightarrow> int \<Rightarrow> int list" where
  "bucket_boundaries duration ages interval =
     sort (remdups
       (add_age_bucket (imperial_click ages)
         (add_age_bucket (castle_click ages)
           (add_age_bucket (feudal_click ages)
             (py_range0 (max duration 0 + interval) interval)))))"

definition snapshot_composition ::
  "data_mappings \<Rightarrow> unit_event list \<Rightarrow> int \<Rightarrow> age_times \<Rightarrow> int \<Rightarrow> py_error + snapshot list" where
  "snapshot_composition dm unit_events duration ages interval =
     (if interval = 0 then Inl Range_step_zero
      else Inr (snapshot_loop dm (sort_key ev_time unit_events)
                  (bucket_boundaries duration ages interval) 0 []))"

section \<open>\<open>_collect_tc_idle\<close>\<close>

datatype age = Dark | Feudal | Castle | Imperial

text \<open>The two variables the nested function \<open>add_idle\<close> updates: \<open>idle_total\<close> and \<open>per_age\<close>.\<close>

record idle_state =
  idle_total :: int
  per_age :: "age \<Rightarrow> int"

definition age_bounds :: "age_times \<Rightarrow> int \<Rightarrow> (age \<times> int option \<times> int option) list" where
  "age_bounds ages duration =
     [(Dark, Some 0, feudal_click ages),
      (Feudal, feudal_click ages, castle_click ages),
      (Castle, castle_click ages, imperial_click ages),
      (Imperial, imperial_click ages, Some duration)]"

text \<open>The body of the loop over \<open>age_bounds\<close>, for one entry.\<close>

definition add_overlap ::
  "int \<Rightarrow> int \<Rightarrow> int \<Rightarrow> idle_state \<Rightarrow> age \<times> int option \<times> int option \<Rightarrow> idle_state" where
  "add_overlap duration start finish st entry =
     (case entry of (label, start_age, end_age) \<Rightarrow>
        (let start_age' = (case start_age of None \<Rightarrow> 0 | Some a \<Rightarrow> a);
             end_age' = (case end_age of None \<Rightarrow> duration | Some b \<Rightarrow> b);
             overlap = max 0 (min finish end_age' - max start start_age')
         in st\<lparr>per_age := (per_age st)(label := per_age st label + overlap)\<rparr>))"

definition add_idle :: "age_times \<Rightarrow> int \<Rightarrow> int \<Rightarrow> int \<Rightarrow> idle_state \<Rightarrow> idle_state" where
  "add_idle ages duration start finish st =
     (let gap = max 0 (finish - start)
      in foldl (add_overlap duration start finish)
           (st\<lparr>idle_total := idle_total st + gap\<rparr>)
           (age_bounds ages duration))"

text \<open>
  The loop over the production times of one timeline; it returns the final \<open>last_time\<close>
  together with the state.
\<close>

fun idle_gaps :: "age_times \<Rightarrow> int \<Rightarrow> int list \<Rightarrow> int \<Rightarrow> idle_state \<Rightarrow> int \<times> idle_state" where
  "idle_gaps ages duration [] last_time st = (last_time, st)"
| "idle_gaps ages duration (time # tms) last_time st =
     (let gap = time - last_time - 25
      in idle_gaps ages duration tms time
           (if gap > 5 then add_idle ages duration (last_time + 25) time st else st))"

text \<open>The statement after the loop: \<open>if last_time and duration > last_time + 25\<close>.\<close>

definition idle_tail :: "age_times \<Rightarrow> int \<Rightarrow> int \<Rightarrow> idle_state \<Rightarrow> idle_state" where
  "idle_tail ages duration last_time st =
     (if last_time \<noteq> 0 \<and> duration > last_time + 25
      then add_idle ages duration (last_time + 25) duration st
      else st)"

definition idle_timeline :: "age_times \<Rightarrow> int \<Rightarrow> int list \<Rightarrow> idle_state \<Rightarrow> idle_state" where
  "idle_timeline ages duration tms st =
     (case idle_gaps ages duration tms 0 st of
        (last_time, st') \<Rightarrow> idle_tail ages duration last_time st')"

text \<open>
  \<open>events_by_tc\<close> is a dictionary from town-center id to the list of production times.
  \<open>tc_append\<close> is \<open>if obj_id in events_by_tc: events_by_tc[obj_id].append(time)\<close>.
\<close>

fun tc_append :: "(int \<times> int list) list \<Rightarrow> int \<Rightarrow> int \<Rightarrow> (int \<times> int list) list" where
  "tc_append [] obj_id t = []"
| "tc_append ((k, ts) # rest) obj_id t =
     (if k = obj_id then (k, ts @ [t]) # rest else (k, ts) # tc_append rest obj_id t)"

definition events_by_tc :: "int list \<Rightarrow> unit_event list \<Rightarrow> (int \<times> int list) list" where
  "events_by_tc tc_ids villager_events =
     foldl (\<lambda>m event. foldl (\<lambda>m' obj_id. tc_append m' obj_id (ev_time event)) m (ev_object_ids event))
       (map (\<lambda>tc_id. (tc_id, [])) tc_ids) villager_events"

text \<open>
  The set \<open>tc_ids\<close>, as the list of its distinct members.  Python does not fix the order
  in which a set is iterated; the result of the detector is a sum over the members.
\<close>

definition tc_ids_of :: "build_event list \<Rightarrow> int list" where
  "tc_ids_of builds =
     remdups (concat (map b_object_ids
       (filter (\<lambda>b. b_building b = Some ''Town Center'') builds)))"

record tc_idle_report =
  total :: int
  total_str :: "string option"
  by_age :: "age \<Rightarrow> int"

definition idle_state0 :: idle_state where
  "idle_state0 = \<lparr> idle_total = 0, per_age = (\<lambda>label. 0) \<rparr>"

definition collect_tc_idle ::
  "unit_event list \<Rightarrow> build_event list \<Rightarrow> int \<Rightarrow> age_times \<Rightarrow> tc_idle_report \<times> bool" where
  "collect_tc_idle unit_events builds duration ages =
     (let villager_events = sort_key ev_time (filter (\<lambda>e. ev_line e = ''villager'') unit_events);
          tc_ids = tc_ids_of builds;
          had_ids = (tc_ids \<noteq> []);
          st = (if had_ids then
                  foldl (\<lambda>st' (tc_id, tms). idle_timeline ages duration (sort tms) st')
                    idle_state0 (events_by_tc tc_ids villager_events)
                else idle_timeline ages duration (map ev_time villager_events) idle_state0)
      in (\<lparr> total = idle_total st,
            total_str = format_seconds (Some (idle_total st)),
            by_age = per_age st \<rparr>,
          \<not> had_ids))"

section \<open>\<open>_detect_switches\<close>\<close>

record switch_event =
  sw_time :: int
  sw_time_str :: "string option"
  sw_opponent_line :: string
  sw_delta :: int
  sw_confidence :: string

record response_record =
  r_opponent_line :: string
  r_your_line :: string
  r_response_time :: int
  r_response_time_str :: "string option"
  r_delay :: int
  r_delay_str :: "string option"
  r_confidence :: "string option"

record missed_record =
  m_opponent_line :: string
  m_suggested_counters :: "string list"
  m_confidence :: string

record switch_report =
  switch_events :: "switch_event list"
  response_delay_vs_opponent :: "response_record list"
  missed_counter_opportunities :: "missed_record list"

text \<open>The inner loop of the first pass, over the items of \<open>curr["totals_by_line"]\<close>.\<close>

definition switches_between :: "snapshot \<Rightarrow> snapshot \<Rightarrow> switch_event list" where
  "switches_between prev_snap curr_snap =
     concat (map (\<lambda>(line, count).
         (let prev_count = totals_get (totals_by_line prev_snap) line 0
          in if line \<in> {''villager'', ''fishing_ship'', ''trade'', ''unknown''} then []
             else if count - prev_count \<ge> 5 \<and> prev_count \<le> 2 then
               [\<lparr> sw_time = snap_time curr_snap,
                   sw_time_str = snap_time_str curr_snap,
                   sw_opponent_line = line,
                   sw_delta = count - prev_count,
                   sw_confidence = ''low'' \<rparr>]
             else []))
       (totals_by_line curr_snap))"

definition find_switches :: "snapshot list \<Rightarrow> switch_event list" where
  "find_switches opponent_snapshots =
     concat (map (\<lambda>(prev_snap, curr_snap). switches_between prev_snap curr_snap)
       (zip opponent_snapshots (drop 1 opponent_snapshots)))"

text \<open>The loop over \<open>counters\<close> inside one snapshot: the first counter line with a count of at least 3.\<close>

fun first_counter :: "string list \<Rightarrow> totals \<Rightarrow> string option" where
  "first_counter [] tot = None"
| "first_counter (counter # counters) tot =
     (if totals_get tot counter 0 \<ge> 3 then Some counter else first_counter counters tot)"

text \<open>The loop over \<open>you_snapshots\<close>; \<open>None\<close> is \<open>response = None\<close> at its end.\<close>

fun find_response :: "snapshot list \<Rightarrow> switch_event \<Rightarrow> string list \<Rightarrow> response_record option" where
  "find_response [] event counters = None"
| "find_response (snapshot # rest) event counters =
     (if snap_time snapshot < sw_time event then find_response rest event counters
      else (case first_counter counters (totals_by_line snapshot) of
              Some counter \<Rightarrow>
                Some \<lparr> r_opponent_line = sw_opponent_line event,
                       r_your_line = counter,
                       r_response_time = snap_time snapshot,
                       r_response_time_str = snap_time_str snapshot,
                       r_delay = snap_time snapshot - sw_time event,
                       r_delay_str = None,
                       r_confidence = None \<rparr>
            | None \<Rightarrow> find_response rest event counters))"

definition counters_of :: "data_mappings \<Rightarrow> switch_event \<Rightarrow> string list" where
  "counters_of dm event =
     (case COUNTER_MAP dm (sw_opponent_line event) of None \<Rightarrow> [] | Some cs \<Rightarrow> cs)"

definition finish_response :: "response_record \<Rightarrow> response_record" where
  "finish_response response =
     response\<lparr> r_delay_str := format_seconds (Some (r_delay response)),
               r_confidence := Some ''low'' \<rparr>"

definition missed_of :: "data_mappings \<Rightarrow> switch_event \<Rightarrow> missed_record" where
  "missed_of dm event =
     \<lparr> m_opponent_line = sw_opponent_line event,
       m_suggested_counters = counters_of dm event,
       m_confidence = ''low'' \<rparr>"

text \<open>The body of the second pass, for one switch event; the state is the pair of output lists.\<close>

definition respond_step ::
  "data_mappings \<Rightarrow> snapshot list \<Rightarrow> response_record list \<times> missed_record list \<Rightarrow> switch_event
     \<Rightarrow> response_record list \<times> missed_record list" where
  "respond_step dm you_snapshots acc event =
     (case acc of (response_delays, missed) \<Rightarrow>
        (case find_response you_snapshots event (counters_of dm event) of
           Some response \<Rightarrow> (response_delays @ [finish_response response], missed)
         | None \<Rightarrow> (response_delays, missed @ [missed_of dm event])))"

definition detect_switches :: "data_mappings \<Rightarrow> snapshot list \<Rightarrow> snapshot list \<Rightarrow> switch_report" where
  "detect_switches dm opponent_snapshots you_snapshots =
     (let evs = find_switches opponent_snapshots;
          acc = foldl (respond_step dm you_snapshots) ([], []) evs
      in \<lparr> switch_events = evs,
           response_delay_vs_opponent = fst acc,
           missed_counter_opportunities = snd acc \<rparr>)"

section \<open>\<open>find_player\<close>\<close>

record player =
  p_name :: string
  p_civilization :: string
  p_winner :: bool

definition lower_char :: "char \<Rightarrow> char" where
  "lower_char c =
     (if 65 \<le> (of_char c :: nat) \<and> (of_char c :: nat) \<le> 90 then char_of ((of_char c :: nat) + 32) else c)"

definition lower :: "string \<Rightarrow> string" where
  "lower s = map lower_char s"

text \<open>\<open>next(p for p in players if p != player)\<close>\<close>

definition next_other :: "player list \<Rightarrow> player \<Rightarrow> py_error + player" where
  "next_other players pl =
     (case filter (\<lambda>p. p \<noteq> pl) players of [] \<Rightarrow> Inl StopIteration | p # ps \<Rightarrow> Inr p)"

definition with_opponent :: "player list \<Rightarrow> player \<Rightarrow> py_error + player \<times> player" where
  "with_opponent players pl =
     (case next_other players pl of Inl e \<Rightarrow> Inl e | Inr opponent \<Rightarrow> Inr (pl, opponent))"

text \<open>
  The loop of the name branch over \<open>players\<close>; \<open>None\<close> means that the loop ended without
  returning.  The first argument is the whole list, the second what is left to visit.
\<close>

fun find_by_name :: "player list \<Rightarrow> player list \<Rightarrow> string \<Rightarrow> (py_error + player \<times> player) option" where
  "find_by_name players [] you_name = None"
| "find_by_name players (pl # rest) you_name =
     (if lower (p_name pl) = lower you_name then Some (with_opponent players pl)
      else find_by_name players rest you_name)"

definition find_by_position :: "player list \<Rightarrow> int \<Rightarrow> (py_error + player \<times> player) option" where
  "find_by_position players you_player =
     (let idx = max 0 (you_player - 1)
      in if idx < int (length players) then Some (with_opponent players (players ! nat idx))
         else None)"

definition find_default :: "player list \<Rightarrow> py_error + player \<times> player" where
  "find_default players =
     (case players of
        [] \<Rightarrow> Inl IndexError
      | pl # rest \<Rightarrow> Inr (pl, if length players > 1 then players ! 1 else players ! 0))"

definition find_player ::
  "player list \<Rightarrow> string option \<Rightarrow> int option \<Rightarrow> py_error + player \<times> player" where
  "find_player players you_name you_player =
     (case (case you_name of
              None \<Rightarrow> None
            | Some n \<Rightarrow> if n \<noteq> [] then find_by_name players players n else None) of
        Some r \<Rightarrow> r
      | None \<Rightarrow>
          (case (case you_player of
                   None \<Rightarrow> None
                 | Some k \<Rightarrow> if k \<noteq> 0 then find_by_position players k else None) of
             Some r \<Rightarrow> r
           | None \<Rightarrow> find_default players))"

section \<open>Notions used in the statements\<close>

text \<open>The \<open>time\<close> fields of the snapshots that \<open>snapshot_composition\<close> returns.\<close>

definition snapshot_times ::
  "data_mappings \<Rightarrow> unit_event list \<Rightarrow> int \<Rightarrow> age_times \<Rightarrow> int \<Rightarrow> py_error + int list" where
  "snapshot_times dm unit_events duration ages interval =
     map_sum id (map snap_time) (snapshot_composition dm unit_events duration ages interval)"

text \<open>
  The bucket boundaries in the words of the specification: every multiple of the
  interval from 0 to the duration inclusive, plus each non-null age click time,
  de-duplicated and sorted ascending.
\<close>

definition spec_bucket_boundaries :: "int \<Rightarrow> age_times \<Rightarrow> int \<Rightarrow> int list" where
  "spec_bucket_boundaries duration ages interval =
     sort (remdups
       (map (\<lambda>k. int k * interval) [0 ..< nat (duration div interval) + 1]
        @ concat (map (\<lambda>c. case c of None \<Rightarrow> [] | Some t \<Rightarrow> [t])
            [feudal_click ages, castle_click ages, imperial_click ages])))"

text \<open>One dictionary of totals is below another: every key is kept and no value decreases.\<close>

definition totals_le :: "totals \<Rightarrow> totals \<Rightarrow> bool" where
  "totals_le t t' \<longleftrightarrow>
     (\<forall>k v. map_of t k = Some v \<longrightarrow> (\<exists>v'. map_of t' k = Some v' \<and> v \<le> v'))"

text \<open>
  The idle seconds that the gap rule assigns to a chronological list of production times,
  starting from \<open>previous_time\<close>: a gap counts when \<open>next_time - previous_time - 25 > 5\<close>
  and then contributes \<open>max(0, gap_seconds)\<close>.
\<close>

fun gap_idle :: "int \<Rightarrow> int list \<Rightarrow> int" where
  "gap_idle previous_time [] = 0"
| "gap_idle previous_time (next_time # rest) =
     (let gap_seconds = next_time - previous_time - 25
      in (if gap_seconds > 5 then max 0 gap_seconds else 0) + gap_idle next_time rest)"

text \<open>
  The tail rule in the words of the specification: the gap after the last production
  counts under the same rule as a gap between productions.
\<close>

definition spec_tail_idle :: "int \<Rightarrow> int \<Rightarrow> int" where
  "spec_tail_idle duration last_time =
     (let gap_seconds = duration - last_time - 25
      in if gap_seconds > 5 then max 0 gap_seconds else 0)"

text \<open>
  The bounds of an age bucket as \<open>add_idle\<close> resolves them (a null start is 0, a null end
  is the duration), and the span between them.
\<close>

definition age_lo :: "age_times \<Rightarrow> age \<Rightarrow> int" where
  "age_lo ages label =
     (case label of
        Dark \<Rightarrow> 0
      | Feudal \<Rightarrow> (case feudal_click ages of None \<Rightarrow> 0 | Some a \<Rightarrow> a)
      | Castle \<Rightarrow> (case castle_click ages of None \<Rightarrow> 0 | Some a \<Rightarrow> a)
      | Imperial \<Rightarrow> (case imperial_click ages of None \<Rightarrow> 0 | Some a \<Rightarrow> a))"

definition age_hi :: "age_times \<Rightarrow> int \<Rightarrow> age \<Rightarrow> int" where
  "age_hi ages duration label =
     (case label of
        Dark \<Rightarrow> (case feudal_click ages of None \<Rightarrow> duration | Some b \<Rightarrow> b)
      | Feudal \<Rightarrow> (case castle_click ages of None \<Rightarrow> duration | Some b \<Rightarrow> b)
      | Castle \<Rightarrow> (case imperial_click ages of None \<Rightarrow> duration | Some b \<Rightarrow> b)
      | Imperial \<Rightarrow> duration)"

definition age_span :: "age_times \<Rightarrow> int \<Rightarrow> age \<Rightarrow> int" where
  "age_span ages duration label = max 0 (age_hi ages duration label - age_lo ages label)"

section \<open>Concrete inputs\<close>

text \<open>
  Small tables and events on which the functions above are evaluated.  The tables stand
  in for those of \<open>data_mappings\<close>.
\<close>

definition ex_dm :: data_mappings where
  "ex_dm = \<lparr> GOLD_LINES = {''knight_line''}, TRASH_LINES = {''pikeman_line''},
     COUNTER_MAP = [''knight_line'' \<mapsto> [''pikeman_line'', ''camel_line'']] \<rparr>"

definition no_ages :: age_times where
  "no_ages = \<lparr> feudal_click = None, castle_click = None, imperial_click = None \<rparr>"

definition ex_ages :: age_times where
  "ex_ages = \<lparr> feudal_click = Some 600, castle_click = Some 1200, imperial_click = None \<rparr>"

definition unit_at :: "int \<Rightarrow> string \<Rightarrow> int list \<Rightarrow> unit_event" where
  "unit_at t l ids = \<lparr> ev_time = t, ev_unit = None, ev_line = l, ev_object_ids = ids \<rparr>"

definition ex_events :: "unit_event list" where
  "ex_events = [unit_at 10 ''knight_line'' [], unit_at 20 ''villager'' []]"

definition ex_snap0 :: snapshot where
  "ex_snap0 = \<lparr> snap_time = 0, snap_time_str = Some ''0:00'', totals_by_line = [],
         military_total = 0, villagers_total_proxy = 0,
         gold_units_total = 0, trash_units_total = 0, gold_pct = None,
         trash_pct = None \<rparr>"

definition ex_snap1 :: snapshot where
  "ex_snap1 = \<lparr> snap_time = 300, snap_time_str = Some ''5:00'',
         totals_by_line = [(''knight_line'', 1), (''villager'', 1)],
         military_total = 1, villagers_total_proxy = 1,
         gold_units_total = 1, trash_units_total = 0, gold_pct = Some 1,
         trash_pct = Some 0 \<rparr>"

definition ex_mono_events :: "unit_event list" where
  "ex_mono_events =
     [unit_at 0 ''villager'' [], unit_at 10 ''villager'' [], unit_at 20 ''knight_line'' []]"

definition scenario_events :: "unit_event list" where
  "scenario_events = [unit_at 0 ''villager'' [7], unit_at 25 ''villager'' [7],
     unit_at 50 ''villager'' [7], unit_at 300 ''villager'' [7]]"

definition scenario_builds :: "build_event list" where
  "scenario_builds = [\<lparr> b_time = 0, b_building = Some ''Town Center'', b_object_ids = [7] \<rparr>]"

definition opp_snapshots :: "snapshot list" where
  "opp_snapshots = [make_snapshot ex_dm 300 [(''knight_line'', 1)],
                    make_snapshot ex_dm 420 [(''knight_line'', 7)]]"

definition you_snapshots :: "snapshot list" where
  "you_snapshots = [make_snapshot ex_dm 300 [(''pikeman_line'', 1)],
                    make_snapshot ex_dm 420 [(''pikeman_line'', 2)],
                    make_snapshot ex_dm 480 [(''pikeman_line'', 3)]]"

definition alice :: player where
  "alice = \<lparr> p_name = ''Alice'', p_civilization = ''Franks'', p_winner = True \<rparr>"

section \<open>Properties of \<open>coerce_seconds\<close>\<close>

text \<open>
  Claim C8.  \<open>coerce_seconds\<close> returns 5400 for the string \<open>1:30:00\<close>, 754 for the string
  \<open>12:34\<close>, 125 for the integer 125, and raises the unsupported-format error for the
  string \<open>bogus\<close>.
\<close>

theorem coerce_seconds_scenarios:
  "coerce_seconds (PyStr ''1:30:00'') = Inr 5400
   \<and> coerce_seconds (PyStr ''12:34'') = Inr 754
   \<and> coerce_seconds (PyInt 125) = Inr 125
   \<and> coerce_seconds (PyStr ''bogus'') = Inl Unsupported_time_format"
  by code_simp

section \<open>The bucket boundaries of \<open>snapshot_composition\<close>\<close>

lemma ceil_div_iff:
  fixes a stop step :: int
  assumes "0 < step"
  shows "a < (stop + step - 1) div step \<longleftrightarrow> a * step < stop"
proof -
  define q where "q = (stop + step - 1) div step"
  define r where "r = (stop + step - 1) mod step"
  have d: "stop + step - 1 = q * step + r" by (simp add: q_def r_def)
  have r: "0 \<le> r" "r < step" using assms by (simp_all add: r_def)
  show ?thesis
  proof
    assume "a < (stop + step - 1) div step"
    then have "a + 1 \<le> q" by (simp add: q_def)
    then have "(a + 1) * step \<le> q * step" using assms by (simp add: mult_right_mono)
    with d r show "a * step < stop" by (simp add: algebra_simps)
  next
    assume l: "a * step < stop"
    show "a < (stop + step - 1) div step"
    proof (rule ccontr)
      assume "\<not> a < (stop + step - 1) div step"
      then have "q \<le> a" by (simp add: q_def)
      then have "q * step \<le> a * step" using assms by (simp add: mult_right_mono)
      with d r l show False by (simp add: algebra_simps)
    qed
  qed
qed

lemma set_py_range0:
  assumes "0 < step"
  shows "set (py_range0 stop step) = {k * step | k. 0 \<le> k \<and> k * step < stop}"
proof -
  let ?n = "nat ((stop + step - 1) div step)"
  have "set (py_range0 stop step) = (\<lambda>k. int k * step) ` {0 ..< ?n}"
    using assms by (simp add: py_range0_def)
  also have "\<dots> = {k * step | k. 0 \<le> k \<and> k * step < stop}"
  proof (intro set_eqI iffI)
    fix x assume "x \<in> (\<lambda>k. int k * step) ` {0 ..< ?n}"
    then obtain k where k: "x = int k * step" and "k \<in> {0 ..< ?n}" by blast
    then have "k < ?n" by simp
    then have "int k < (stop + step - 1) div step" by simp
    then have "int k * step < stop" using ceil_div_iff [OF assms] by simp
    with k show "x \<in> {k * step | k. 0 \<le> k \<and> k * step < stop}" by auto
  next
    fix x assume "x \<in> {k * step | k. 0 \<le> k \<and> k * step < stop}"
    then obtain k where k: "x = k * step" "0 \<le> k" "k * step < stop" by auto
    then have "k < (stop + step - 1) div step" using ceil_div_iff [OF assms] by simp
    with k have "nat k \<in> {0 ..< ?n}" and "x = int (nat k) * step" by simp_all
    then show "x \<in> (\<lambda>k. int k * step) ` {0 ..< ?n}" by (rule rev_image_eqI)
  qed
  finally show ?thesis .
qed

lemma set_add_age_bucket: "set (add_age_bucket c bs) = set bs \<union> set_option c"
  by (cases c) (auto simp: add_age_bucket_def)

lemma snapshot_loop_times: "map snap_time (snapshot_loop dm es bs idx tot) = bs"
  by (induction bs arbitrary: idx tot) (auto split: prod.splits simp: make_snapshot_def Let_def)

text \<open>
  Claim C1, as stated, fails.  With a duration of 100 and the default interval of 300 the
  boundaries are 0 and 300, so a snapshot is emitted at time 300, after the end of the
  match; the multiples of 300 from 0 to 100 inclusive are 0 alone.
\<close>

theorem bucket_boundaries_counterexample:
  "bucket_boundaries 100 no_ages 300 = [0, 300]
   \<and> spec_bucket_boundaries 100 no_ages 300 = [0]
   \<and> snapshot_times ex_dm ex_events 100 no_ages 300 = Inr [0, 300]"
  by code_simp

text \<open>
  Claim C1, amended.  For a non-negative duration and a positive interval, the bucket
  boundaries are exactly the non-negative multiples of the interval below
  \<open>duration + interval\<close>, plus each non-null age click time, de-duplicated and sorted
  ascending; the snapshots are emitted at exactly these times, so every snapshot time is
  such a multiple or an age click time.
\<close>

theorem bucket_boundaries_multiples:
  assumes "0 \<le> duration" and "0 < interval"
  shows "set (bucket_boundaries duration ages interval) =
       {k * interval | k. 0 \<le> k \<and> k * interval < duration + interval}
       \<union> set_option (feudal_click ages) \<union> set_option (castle_click ages)
       \<union> set_option (imperial_click ages)
   \<and> sorted (bucket_boundaries duration ages interval)
   \<and> distinct (bucket_boundaries duration ages interval)
   \<and> snapshot_times dm unit_events duration ages interval
       = Inr (bucket_boundaries duration ages interval)"
proof -
  from assms(1) have m: "max duration 0 = duration" by simp
  have "set (bucket_boundaries duration ages interval) =
       {k * interval | k. 0 \<le> k \<and> k * interval < duration + interval}
       \<union> set_option (feudal_click ages) \<union> set_option (castle_click ages)
       \<union> set_option (imperial_click ages)"
    by (simp add: bucket_boundaries_def set_add_age_bucket set_py_range0 [OF assms(2)] m)
  moreover have "sorted (bucket_boundaries duration ages interval)"
    and "distinct (bucket_boundaries duration ages interval)"
    by (simp_all add: bucket_boundaries_def)
  moreover have "snapshot_times dm unit_events duration ages interval
       = Inr (bucket_boundaries duration ages interval)"
    using assms(2) by (simp add: snapshot_times_def snapshot_composition_def snapshot_loop_times)
  ultimately show ?thesis by simp
qed

theorem bucket_boundaries_multiples_witness:
  "bucket_boundaries 100 no_ages 300 = [0, 300]
   \<and> set (bucket_boundaries 100 no_ages 300) =
       {k * 300 | k. 0 \<le> k \<and> k * 300 < (100::int) + 300}
       \<union> set_option (feudal_click no_ages) \<union> set_option (castle_click no_ages)
       \<union> set_option (imperial_click no_ages)
   \<and> snapshot_times ex_dm ex_events 100 no_ages 300 = Inr [0, 300]"
proof -
  have d: "(0::int) \<le> 100" and i: "(0::int) < 300" by simp_all
  have b: "bucket_boundaries 100 no_ages 300 = [0, 300]" by code_simp
  from bucket_boundaries_multiples [OF d i, of no_ages ex_dm ex_events] b
  show ?thesis by simp
qed

section \<open>Properties of \<open>snapshot_composition\<close>\<close>

lemma snapshot_loop_members:
  "s \<in> set (snapshot_loop dm es bs idx tot) \<Longrightarrow> \<exists>b t. s = make_snapshot dm b t"
  by (induction bs arbitrary: idx tot) (auto split: prod.splits)

lemma make_snapshot_pct:
  "(gold_pct (make_snapshot dm b t) = None \<longleftrightarrow> military_total (make_snapshot dm b t) = 0)
   \<and> (trash_pct (make_snapshot dm b t) = None \<longleftrightarrow> military_total (make_snapshot dm b t) = 0)
   \<and> (military_total (make_snapshot dm b t) \<noteq> 0 \<longrightarrow>
        gold_pct (make_snapshot dm b t) =
          Some (of_int (gold_units_total (make_snapshot dm b t)) / of_int (military_total (make_snapshot dm b t)))
        \<and> trash_pct (make_snapshot dm b t) =
          Some (of_int (trash_units_total (make_snapshot dm b t)) / of_int (military_total (make_snapshot dm b t))))"
  by (simp add: make_snapshot_def Let_def)

lemma ex_snapshots:
  "snapshot_composition ex_dm ex_events 100 no_ages 300 = Inr [ex_snap0, ex_snap1]"
  by code_simp

text \<open>
  Claim C7.  In every snapshot that \<open>snapshot_composition\<close> returns, \<open>gold_pct\<close> and
  \<open>trash_pct\<close> are null exactly when \<open>military_total\<close> is zero; otherwise they are the
  quotients of \<open>gold_units_total\<close> and of \<open>trash_units_total\<close> by \<open>military_total\<close>.
\<close>

theorem pct_null_iff_no_military:
  assumes "snapshot_composition dm unit_events duration ages interval = Inr snaps"
    and "s \<in> set snaps"
  shows "(gold_pct s = None \<longleftrightarrow> military_total s = 0)
   \<and> (trash_pct s = None \<longleftrightarrow> military_total s = 0)
   \<and> (military_total s \<noteq> 0 \<longrightarrow>
        gold_pct s = Some (of_int (gold_units_total s) / of_int (military_total s))
        \<and> trash_pct s = Some (of_int (trash_units_total s) / of_int (military_total s)))"
proof -
  from assms have "s \<in> set (snapshot_loop dm (sort_key ev_time unit_events)
      (bucket_boundaries duration ages interval) 0 [])"
    by (auto simp: snapshot_composition_def split: if_splits)
  then obtain b t where "s = make_snapshot dm b t"
    using snapshot_loop_members by blast
  then show ?thesis
    using make_snapshot_pct [of dm b t] by simp
qed

theorem pct_null_iff_no_military_witness:
  "snapshot_composition ex_dm ex_events 100 no_ages 300 = Inr [ex_snap0, ex_snap1]
   \<and> ex_snap1 \<in> set [ex_snap0, ex_snap1]
   \<and> military_total ex_snap1 \<noteq> 0
   \<and> gold_pct ex_snap1 = Some (of_int (gold_units_total ex_snap1) / of_int (military_total ex_snap1))
   \<and> ex_snap0 \<in> set [ex_snap0, ex_snap1]
   \<and> (gold_pct ex_snap0 = None \<longleftrightarrow> military_total ex_snap0 = 0)"
proof -
  have h1: "ex_snap1 \<in> set [ex_snap0, ex_snap1]" and h0: "ex_snap0 \<in> set [ex_snap0, ex_snap1]"
    by simp_all
  have m: "military_total ex_snap1 \<noteq> 0" by (simp add: ex_snap1_def)
  show ?thesis
    using pct_null_iff_no_military [OF ex_snapshots h1] pct_null_iff_no_military [OF ex_snapshots h0]
      ex_snapshots m by simp
qed

lemma map_of_totals_add:
  "map_of (totals_add t k) = (map_of t)(k \<mapsto> totals_get t k 0 + 1)"
  by (induction t k rule: totals_add.induct) (auto simp: totals_get_def fun_eq_iff)

lemma totals_le_refl: "totals_le t t"
  by (simp add: totals_le_def)

lemma totals_le_trans: "totals_le a b \<Longrightarrow> totals_le b c \<Longrightarrow> totals_le a c"
  unfolding totals_le_def by (meson order_trans)

lemma totals_le_add: "totals_le t (totals_add t k)"
  by (auto simp: totals_le_def map_of_totals_add totals_get_def)

lemma consume_events_le:
  "consume_events es b idx tot = (idx', tot') \<Longrightarrow> totals_le tot tot'"
proof (induction es b idx tot rule: consume_events.induct)
  case (1 es b idx tot)
  show ?case
  proof (cases "idx < length es \<and> ev_time (es ! idx) \<le> b")
    case True
    with "1.prems" have "consume_events es b (idx + 1) (totals_add tot (ev_line (es ! idx))) = (idx', tot')"
      by (simp add: consume_events.simps [of es b idx tot])
    with "1.IH" True have "totals_le (totals_add tot (ev_line (es ! idx))) tot'" by blast
    then show ?thesis using totals_le_add totals_le_trans by blast
  next
    case False
    with "1.prems" have "tot' = tot" by (simp add: consume_events.simps [of es b idx tot])
    then show ?thesis by (simp add: totals_le_refl)
  qed
qed

lemma snapshot_loop_length: "length (snapshot_loop dm es bs idx tot) = length bs"
  by (induction bs arbitrary: idx tot) (auto split: prod.splits)

lemma snapshot_loop_first:
  "snapshot_loop dm es (b # bs) idx tot = s # rest \<Longrightarrow> totals_le tot (totals_by_line s)"
  by (auto split: prod.splits simp: make_snapshot_def Let_def dest: consume_events_le)

lemma snapshot_loop_step:
  "Suc n < length bs \<Longrightarrow>
   totals_le (totals_by_line (snapshot_loop dm es bs idx tot ! n))
             (totals_by_line (snapshot_loop dm es bs idx tot ! Suc n))"
proof (induction bs arbitrary: idx tot n)
  case Nil
  then show ?case by simp
next
  case (Cons b bs)
  obtain idx' tot' where c: "consume_events es b idx tot = (idx', tot')" by force
  then have e: "snapshot_loop dm es (b # bs) idx tot = make_snapshot dm b tot' # snapshot_loop dm es bs idx' tot'"
    by simp
  show ?case
  proof (cases n)
    case 0
    from Cons.prems obtain b' bs' where bs: "bs = b' # bs'" by (cases bs) auto
    have "length (snapshot_loop dm es (b' # bs') idx' tot') = Suc (length bs')"
      unfolding snapshot_loop_length by simp
    then obtain s rest where r: "snapshot_loop dm es (b' # bs') idx' tot' = s # rest"
      unfolding length_Suc_conv by blast
    then have "totals_le tot' (totals_by_line s)" by (rule snapshot_loop_first)
    with 0 e bs r show ?thesis by (simp add: make_snapshot_def Let_def)
  next
    case (Suc m)
    with Cons.prems have "Suc m < length bs" by simp
    from Cons.IH [OF this, of idx' tot'] Suc e show ?thesis by simp
  qed
qed

text \<open>
  Claim C2.  In the sequence returned by \<open>snapshot_composition\<close>, every key of
  \<open>totals_by_line\<close> in one snapshot is present in the next snapshot with a value that
  is at least as large.
\<close>

theorem totals_by_line_monotone:
  assumes "snapshot_composition dm unit_events duration ages interval = Inr snaps"
    and "Suc n < length snaps"
    and "map_of (totals_by_line (snaps ! n)) key = Some v"
  shows "\<exists>v'. map_of (totals_by_line (snaps ! Suc n)) key = Some v' \<and> v \<le> v'"
proof -
  let ?bs = "bucket_boundaries duration ages interval"
  let ?es = "sort_key ev_time unit_events"
  from assms(1) have s: "snaps = snapshot_loop dm ?es ?bs 0 []"
    by (auto simp: snapshot_composition_def split: if_splits)
  with assms(2) have "Suc n < length ?bs" by (simp add: snapshot_loop_length)
  then have "totals_le (totals_by_line (snaps ! n)) (totals_by_line (snaps ! Suc n))"
    unfolding s by (rule snapshot_loop_step)
  with assms(3) show ?thesis by (simp add: totals_le_def)
qed

lemma ex_mono_snapshots:
  "snapshot_composition ex_dm ex_mono_events 100 no_ages 300 =
     Inr [make_snapshot ex_dm 0 [(''villager'', 1)],
          make_snapshot ex_dm 300 [(''villager'', 2), (''knight_line'', 1)]]"
  by code_simp

theorem totals_by_line_monotone_witness:
  "snapshot_composition ex_dm ex_mono_events 100 no_ages 300 =
     Inr [make_snapshot ex_dm 0 [(''villager'', 1)],
          make_snapshot ex_dm 300 [(''villager'', 2), (''knight_line'', 1)]]
   \<and> Suc 0 < length [make_snapshot ex_dm 0 [(''villager'', 1)],
          make_snapshot ex_dm 300 [(''villager'', 2), (''knight_line'', 1)]]
   \<and> map_of (totals_by_line (make_snapshot ex_dm 0 [(''villager'', 1)])) ''villager'' = Some 1
   \<and> (\<exists>v'. map_of (totals_by_line (make_snapshot ex_dm 300 [(''villager'', 2), (''knight_line'', 1)]))
              ''villager'' = Some v' \<and> 1 \<le> v')"
proof -
  let ?snaps = "[make_snapshot ex_dm 0 [(''villager'', 1)],
          make_snapshot ex_dm 300 [(''villager'', 2), (''knight_line'', 1)]]"
  have len: "Suc 0 < length ?snaps" by simp
  have key: "map_of (totals_by_line (?snaps ! 0)) ''villager'' = Some 1"
    by (simp add: make_snapshot_def Let_def)
  from totals_by_line_monotone [OF ex_mono_snapshots len key]
  show ?thesis using ex_mono_snapshots key by simp
qed

section \<open>Properties of \<open>_collect_tc_idle\<close>\<close>

lemma idle_total_add_overlap [simp]:
  "idle_total (add_overlap d s f st entry) = idle_total st"
  by (simp add: add_overlap_def Let_def split: prod.splits)

lemma idle_total_foldl_overlap [simp]:
  "idle_total (foldl (add_overlap d s f) st entries) = idle_total st"
  by (induction entries arbitrary: st) simp_all

lemma idle_total_add_idle:
  "idle_total (add_idle ages d s f st) = idle_total st + max 0 (f - s)"
  by (simp add: add_idle_def Let_def)

lemma per_age_add_idle:
  "per_age (add_idle ages d s f st) label =
     per_age st label + max 0 (min f (age_hi ages d label) - max s (age_lo ages label))"
  by (cases label)
    (simp_all add: add_idle_def age_bounds_def add_overlap_def Let_def age_hi_def age_lo_def
      split: option.splits)

lemma idle_gaps_total:
  "idle_total (snd (idle_gaps ages d tms l st)) = idle_total st + gap_idle l tms"
  by (induction tms arbitrary: l st) (simp_all add: Let_def idle_total_add_idle)

lemma idle_gaps_last: "fst (idle_gaps ages d tms l st) = last (l # tms)"
  by (induction tms arbitrary: l st) (simp_all add: Let_def)

lemma idle_tail_total:
  "l \<noteq> 0 \<Longrightarrow> idle_total (idle_tail ages d l st) =
     idle_total st + (if d - l - 25 > 0 then d - l - 25 else 0)"
  by (simp add: idle_tail_def idle_total_add_idle)

lemma idle_timeline_total:
  assumes "last (0 # tms) \<noteq> 0"
  shows "idle_total (idle_timeline ages d tms st) =
     idle_total st + gap_idle 0 tms
       + (if d - last (0 # tms) - 25 > 0 then d - last (0 # tms) - 25 else 0)"
proof -
  obtain l st' where g: "idle_gaps ages d tms 0 st = (l, st')" by force
  then have "l = last (0 # tms)" using idle_gaps_last [of ages d tms 0 st] by simp
  moreover from g have "idle_total st' = idle_total st + gap_idle 0 tms"
    using idle_gaps_total [of ages d tms 0 st] by simp
  ultimately show ?thesis
    using assms g idle_tail_total [of l ages d st'] by (simp add: idle_timeline_def)
qed

lemma idle_gaps_bound:
  assumes "sorted (l # tms)"
    and "per_age st label \<le> base + max 0 (min (l + 25) (age_hi ages d label) - age_lo ages label)"
  shows "per_age (snd (idle_gaps ages d tms l st)) label
     \<le> base + max 0 (min (last (l # tms) + 25) (age_hi ages d label) - age_lo ages label)"
  using assms
proof (induction tms arbitrary: l st)
  case Nil
  then show ?case by simp
next
  case (Cons t tms)
  from Cons.prems(1) have lt: "l \<le> t" and s: "sorted (t # tms)" by simp_all
  let ?st = "if t - l - 25 > 5 then add_idle ages d (l + 25) t st else st"
  have "per_age ?st label \<le> base + max 0 (min (t + 25) (age_hi ages d label) - age_lo ages label)"
    using Cons.prems(2) lt by (auto simp: per_age_add_idle)
  from Cons.IH [OF s this] show ?case by (simp add: Let_def)
qed

lemma idle_tail_bound:
  assumes "per_age st label \<le> base + max 0 (min (l + 25) (age_hi ages d label) - age_lo ages label)"
  shows "per_age (idle_tail ages d l st) label \<le> base + age_span ages d label"
  using assms by (auto simp: idle_tail_def per_age_add_idle age_span_def)

lemma idle_gaps_tail_bound:
  assumes "sorted (l # tms)"
    and "per_age st label \<le> base + max 0 (min (l + 25) (age_hi ages d label) - age_lo ages label)"
  shows "per_age (idle_tail ages d (fst (idle_gaps ages d tms l st)) (snd (idle_gaps ages d tms l st))) label
     \<le> base + age_span ages d label"
  using idle_gaps_bound [OF assms] idle_tail_bound idle_gaps_last by metis

lemma idle_timeline_bound:
  assumes "sorted tms"
  shows "per_age (idle_timeline ages d tms st) label \<le> per_age st label + age_span ages d label"
proof -
  have init: "\<And>l. per_age st label
      \<le> per_age st label + max 0 (min (l + 25) (age_hi ages d label) - age_lo ages label)"
    by simp
  have tl: "idle_timeline ages d tms st =
      idle_tail ages d (fst (idle_gaps ages d tms 0 st)) (snd (idle_gaps ages d tms 0 st))"
    by (simp add: idle_timeline_def split: prod.splits)
  show ?thesis
  proof (cases tms)
    case Nil
    then show ?thesis by (simp add: idle_timeline_def idle_tail_def age_span_def)
  next
    case (Cons t rest)
    show ?thesis
    proof (cases "0 \<le> t")
      case True
      with assms Cons have "sorted (0 # tms)" by auto
      from idle_gaps_tail_bound [OF this init] tl show ?thesis by simp
    next
      case False
      then have "idle_gaps ages d tms 0 st = idle_gaps ages d rest t st"
        using Cons by (simp add: Let_def)
      moreover from assms Cons have "sorted (t # rest)" by simp
      ultimately show ?thesis
        using idle_gaps_tail_bound [OF \<open>sorted (t # rest)\<close> init] tl by simp
    qed
  qed
qed

lemma foldl_timelines_bound:
  "per_age (foldl (\<lambda>st' (tc_id, tms). idle_timeline ages d (sort tms) st') st m) label
     \<le> per_age st label + int (length m) * age_span ages d label"
proof (induction m arbitrary: st)
  case Nil
  then show ?case by simp
next
  case (Cons p m)
  obtain tc tms where p: "p = (tc, tms)" by force
  have "per_age (idle_timeline ages d (sort tms) st) label \<le> per_age st label + age_span ages d label"
    by (rule idle_timeline_bound) simp
  with Cons.IH [of "idle_timeline ages d (sort tms) st"] p show ?case
    by (simp add: algebra_simps)
qed

lemma length_tc_append [simp]: "length (tc_append m obj_id t) = length m"
  by (induction m obj_id t rule: tc_append.induct) simp_all

lemma length_foldl_tc_append [simp]:
  "length (foldl (\<lambda>m' obj_id. tc_append m' obj_id t) m ids) = length m"
  by (induction ids arbitrary: m) simp_all

lemma length_events_by_tc: "length (events_by_tc tc_ids evs) = length tc_ids"
proof -
  have "\<And>m. length (foldl (\<lambda>m event. foldl (\<lambda>m' obj_id. tc_append m' obj_id (ev_time event)) m
      (ev_object_ids event)) m evs) = length m"
    by (induction evs) simp_all
  then show ?thesis by (simp add: events_by_tc_def)
qed

lemma age_span_nonneg: "0 \<le> age_span ages d label"
  by (simp add: age_span_def)

lemma idle_timeline_Nil: "idle_timeline ages duration [] st = st"
  by (simp add: idle_timeline_def idle_tail_def)

lemma events_by_tc_Nil: "events_by_tc tc_ids [] = map (\<lambda>tc_id. (tc_id, [])) tc_ids"
  by (simp add: events_by_tc_def)

lemma foldl_empty_timelines:
  "foldl (\<lambda>st' (tc_id, tms). idle_timeline ages duration (sort tms) st') st
     (map (\<lambda>tc_id. (tc_id, [])) tc_ids) = st"
  by (induction tc_ids arbitrary: st) (simp_all add: idle_timeline_Nil)

lemma scenario_grouping:
  "tc_ids_of scenario_builds = [7]
   \<and> events_by_tc [7] (sort_key ev_time (filter (\<lambda>e. ev_line e = ''villager'') scenario_events))
       = [(7, [0, 25, 50, 300])]"
  by code_simp

text \<open>
  Claim C3, as stated, fails on the tail.  With one production at 100 and a duration of
  128 the gap after the last production is 3 seconds, which is not more than 5, and the
  detector still adds these 3 seconds: the total is 78, not 75.
\<close>

theorem tc_idle_tail_counterexample:
  "idle_total (idle_tail no_ages 128 100 idle_state0) = 3
   \<and> spec_tail_idle 128 100 = 0
   \<and> total (fst (collect_tc_idle [unit_at 100 ''villager'' []] [] 128 no_ages)) = 78"
  by code_simp

text \<open>
  Claim C3, amended.  Along a chronological list of production times, a gap between
  consecutive productions (the first one measured from time 0) contributes exactly when
  \<open>next_time - previous_time - 25 > 5\<close>, and then \<open>max(0, gap_seconds)\<close>.  When the last
  production time is not zero, the tail contributes \<open>duration - last_time - 25\<close> exactly
  when this is positive: the tail has no 5-second tolerance.  In particular, when no town
  center id is known, the reported total is the sum of the two over the villager events.
\<close>

theorem tc_idle_gap_rule:
  assumes "tms = map ev_time (sort_key ev_time (filter (\<lambda>e. ev_line e = ''villager'') unit_events))"
    and "last (0 # tms) \<noteq> 0"
    and "tc_ids_of builds = []"
  shows "idle_total (snd (idle_gaps ages duration tms last_time st)) = idle_total st + gap_idle last_time tms
   \<and> idle_total (idle_timeline ages duration tms st) =
       idle_total st + gap_idle 0 tms
         + (if duration - last (0 # tms) - 25 > 0 then duration - last (0 # tms) - 25 else 0)
   \<and> total (fst (collect_tc_idle unit_events builds duration ages)) =
       gap_idle 0 tms
         + (if duration - last (0 # tms) - 25 > 0 then duration - last (0 # tms) - 25 else 0)"
proof -
  have "total (fst (collect_tc_idle unit_events builds duration ages)) =
      idle_total (idle_timeline ages duration tms idle_state0)"
    using assms(1,3) by (simp add: collect_tc_idle_def Let_def)
  then show ?thesis
    using idle_timeline_total [OF assms(2)] idle_gaps_total by (simp add: idle_state0_def)
qed

theorem tc_idle_gap_rule_witness:
  "idle_total (idle_timeline no_ages 128 [100] idle_state0) = 78
   \<and> gap_idle 0 [100] = 75
   \<and> total (fst (collect_tc_idle [unit_at 100 ''villager'' []] [] 128 no_ages)) = 78"
proof -
  have t: "[100] = map ev_time (sort_key ev_time
      (filter (\<lambda>e. ev_line e = ''villager'') [unit_at 100 ''villager'' []]))"
    by (simp add: unit_at_def)
  have h: "last (0 # [100]) \<noteq> (0::int)" by simp
  have b: "tc_ids_of [] = []" by (simp add: tc_ids_of_def)
  from tc_idle_gap_rule [OF t h b, of no_ages 128 0 idle_state0] show ?thesis
    by (simp add: idle_state0_def Let_def)
qed

text \<open>
  Claim C4, as stated, fails.  In the scenario (duration 900, productions at 0, 25, 50
  and 300 on the town center 7) the detector reports 225 idle seconds before 300, for the
  gap between the productions at 50 and at 300, and a total of 800.
\<close>

theorem scenario_counterexample:
  "total (fst (collect_tc_idle scenario_events scenario_builds 900 no_ages)) = 800
   \<and> idle_total (snd (idle_gaps no_ages 900 [0, 25, 50, 300] 0 idle_state0)) = 225"
  by code_simp

text \<open>
  Claim C4, amended.  In the scenario, whatever the age times, the detector reports 225
  idle seconds for the productions up to 300 (the interval from 75 to 300), 575 seconds
  for the trailing gap (from 325 to 900), and a total of 800.
\<close>

theorem scenario_idle_total:
  "total (fst (collect_tc_idle scenario_events scenario_builds 900 ages)) = 800
   \<and> idle_total (snd (idle_gaps ages 900 [0, 25, 50, 300] 0 idle_state0)) = 225
   \<and> idle_total (idle_tail ages 900 300 st) = idle_total st + 575"
proof -
  have l: "last (0 # [0, 25, 50, 300]) \<noteq> (0::int)" by simp
  have "idle_total (idle_timeline ages 900 [0, 25, 50, 300] idle_state0) = 800"
    using idle_timeline_total [OF l, of ages 900 idle_state0] by (simp add: idle_state0_def Let_def)
  moreover have "sort [0, 25, 50, 300 :: int] = [0, 25, 50, 300]" by simp
  ultimately have "total (fst (collect_tc_idle scenario_events scenario_builds 900 ages)) = 800"
    using scenario_grouping by (simp add: collect_tc_idle_def Let_def)
  moreover have "idle_total (snd (idle_gaps ages 900 [0, 25, 50, 300] 0 idle_state0)) = 225"
    by (simp add: idle_total_add_idle idle_state0_def Let_def)
  moreover have "idle_total (idle_tail ages 900 300 st) = idle_total st + 575"
    by (simp add: idle_tail_total)
  ultimately show ?thesis by simp
qed

text \<open>
  Claim C5, as stated, fails when several town centers are tracked.  Two town centers
  that each produce one villager at 100, in a match of 1500 seconds with the Feudal click
  at 600, are each idle for 550 seconds of the Dark Age; the Dark bucket receives 1100
  seconds although its span is 600.
\<close>

theorem idle_per_age_counterexample:
  "by_age (fst (collect_tc_idle [unit_at 100 ''villager'' [1, 2]]
        [\<lparr> b_time = 0, b_building = Some ''Town Center'', b_object_ids = [1, 2] \<rparr>] 1500 ex_ages)) Dark
     = 1100
   \<and> age_span ex_ages 1500 Dark = 600"
  by code_simp

text \<open>
  Claim C5, amended.  The idle seconds attributed to an age bucket never exceed the span
  of that bucket multiplied by the number of tracked town centers (by one when no town
  center id is known and the single aggregate timeline is used).
\<close>

theorem idle_per_age_bounded:
  "by_age (fst (collect_tc_idle unit_events builds duration ages)) label
     \<le> int (max 1 (length (tc_ids_of builds))) * age_span ages duration label"
proof (cases "tc_ids_of builds = []")
  case True
  let ?v = "sort_key ev_time (filter (\<lambda>e. ev_line e = ''villager'') unit_events)"
  have "sorted (map ev_time ?v)" by simp
  from idle_timeline_bound [OF this, of ages duration idle_state0 label] True
  show ?thesis by (simp add: collect_tc_idle_def Let_def idle_state0_def)
next
  case False
  let ?v = "sort_key ev_time (filter (\<lambda>e. ev_line e = ''villager'') unit_events)"
  from False have m: "max 1 (length (tc_ids_of builds)) = length (tc_ids_of builds)"
    by (cases "tc_ids_of builds") simp_all
  from foldl_timelines_bound [of ages duration idle_state0 "events_by_tc (tc_ids_of builds) ?v" label]
    False
  show ?thesis
    unfolding m by (simp add: collect_tc_idle_def Let_def idle_state0_def length_events_by_tc)
qed

text \<open>
  Claim C10.  When no unit event is a villager production, the detector reports a total
  of 0 and 0 for every age bucket; a timeline without productions, such as that of a
  tracked town center that never produced a villager, leaves the idle state unchanged.
\<close>

theorem no_villagers_no_idle:
  assumes "\<forall>e \<in> set unit_events. ev_line e \<noteq> ''villager''"
  shows "total (fst (collect_tc_idle unit_events builds duration ages)) = 0
    \<and> (\<forall>label. by_age (fst (collect_tc_idle unit_events builds duration ages)) label = 0)
    \<and> idle_timeline ages duration [] st = st"
proof -
  from assms have "filter (\<lambda>e. ev_line e = ''villager'') unit_events = []"
    by (simp add: filter_empty_conv)
  then show ?thesis
    by (simp add: collect_tc_idle_def Let_def events_by_tc_Nil foldl_empty_timelines
        idle_timeline_Nil idle_state0_def)
qed

theorem no_villagers_no_idle_witness:
  "total (fst (collect_tc_idle [unit_at 10 ''knight_line'' [7]] scenario_builds 900 no_ages)) = 0
   \<and> by_age (fst (collect_tc_idle [unit_at 10 ''knight_line'' [7]] scenario_builds 900 no_ages)) Dark = 0
   \<and> ev_line (unit_at 10 ''knight_line'' [7]) \<noteq> ''villager''"
proof -
  have h: "\<forall>e \<in> set [unit_at 10 ''knight_line'' [7]]. ev_line e \<noteq> ''villager''"
    by (simp add: unit_at_def)
  from no_villagers_no_idle [OF h, of scenario_builds 900 no_ages] show ?thesis
    by (simp add: unit_at_def)
qed

section \<open>Properties of \<open>_detect_switches\<close>\<close>

lemma first_counter_None_iff:
  "first_counter cs tot = None \<longleftrightarrow> (\<forall>c \<in> set cs. totals_get tot c 0 < 3)"
  by (induction cs) auto

lemma first_counter_Some:
  "first_counter cs tot = Some c \<Longrightarrow>
     \<exists>pre post. cs = pre @ c # post \<and> (\<forall>x \<in> set pre. totals_get tot x 0 < 3)
       \<and> 3 \<le> totals_get tot c 0"
proof (induction cs)
  case Nil
  then show ?case by simp
next
  case (Cons a cs)
  show ?case
  proof (cases "3 \<le> totals_get tot a 0")
    case True
    with Cons.prems have "a = c" by simp
    with True show ?thesis by (intro exI [of _ "[]"] exI [of _ cs]) simp
  next
    case False
    with Cons obtain pre post where
      "cs = pre @ c # post" "\<forall>x \<in> set pre. totals_get tot x 0 < 3" "3 \<le> totals_get tot c 0"
      by auto
    with False show ?thesis by (intro exI [of _ "a # pre"] exI [of _ post]) simp
  qed
qed

lemma find_response_None_iff:
  "find_response ss e cs = None \<longleftrightarrow>
     (\<forall>s \<in> set ss. snap_time s < sw_time e \<or> first_counter cs (totals_by_line s) = None)"
  by (induction ss) (auto split: option.splits)

lemma find_response_Some:
  "find_response ss e cs = Some r \<Longrightarrow>
     \<exists>pre s post. ss = pre @ s # post
       \<and> (\<forall>p \<in> set pre. snap_time p < sw_time e \<or> first_counter cs (totals_by_line p) = None)
       \<and> sw_time e \<le> snap_time s
       \<and> first_counter cs (totals_by_line s) = Some (r_your_line r)
       \<and> r_response_time r = snap_time s
       \<and> r_delay r = snap_time s - sw_time e
       \<and> r_opponent_line r = sw_opponent_line e"
proof (induction ss)
  case Nil
  then show ?case by simp
next
  case (Cons a ss)
  show ?case
  proof (cases "snap_time a < sw_time e \<or> first_counter cs (totals_by_line a) = None")
    case True
    with Cons.prems have "find_response ss e cs = Some r" by (auto split: if_splits)
    from Cons.IH [OF this] obtain pre s post where
      "ss = pre @ s # post"
      "\<forall>p \<in> set pre. snap_time p < sw_time e \<or> first_counter cs (totals_by_line p) = None"
      "sw_time e \<le> snap_time s" "first_counter cs (totals_by_line s) = Some (r_your_line r)"
      "r_response_time r = snap_time s" "r_delay r = snap_time s - sw_time e"
      "r_opponent_line r = sw_opponent_line e"
      by blast
    with True show ?thesis
      by (intro exI [of _ "a # pre"] exI [of _ s] exI [of _ post]) simp
  next
    case False
    then obtain c where c: "first_counter cs (totals_by_line a) = Some c" by auto
    with False Cons.prems have "r_your_line r = c" "r_response_time r = snap_time a"
      "r_delay r = snap_time a - sw_time e" "r_opponent_line r = sw_opponent_line e"
      by (auto split: if_splits)
    with False c show ?thesis
      by (intro exI [of _ "[]"] exI [of _ a] exI [of _ ss]) simp
  qed
qed

lemma foldl_respond_step:
  "foldl (respond_step dm you) (rs, ms) evs =
     (rs @ List.map_filter (\<lambda>e. map_option finish_response (find_response you e (counters_of dm e))) evs,
      ms @ map (missed_of dm) (filter (\<lambda>e. find_response you e (counters_of dm e) = None) evs))"
proof (induction evs arbitrary: rs ms)
  case Nil
  then show ?case by simp
next
  case (Cons e evs)
  show ?case
  proof (cases "find_response you e (counters_of dm e)")
    case None
    then have "respond_step dm you (rs, ms) e = (rs, ms @ [missed_of dm e])"
      by (simp add: respond_step_def)
    with None Cons.IH [of rs "ms @ [missed_of dm e]"] show ?thesis
      by simp
  next
    case (Some r)
    then have "respond_step dm you (rs, ms) e = (rs @ [finish_response r], ms)"
      by (simp add: respond_step_def)
    with Some Cons.IH [of "rs @ [finish_response r]" ms] show ?thesis
      by simp
  qed
qed

lemma length_map_filter_split:
  "length (List.map_filter f xs) + length (filter (\<lambda>x. f x = None) xs) = length xs"
  by (induction xs) (auto split: option.splits)

text \<open>
  Claim C6.  Every detected switch event yields exactly one record: the list of responses
  holds one record for each event for which the search over the viewer's snapshots finds
  a counter, in the order of the events, and the list of missed opportunities holds one
  record for each event for which it finds none.  The two lists together have as many
  entries as there are switch events.
\<close>

theorem switch_event_one_outcome:
  "response_delay_vs_opponent (detect_switches dm opp you) =
     List.map_filter (\<lambda>e. map_option finish_response (find_response you e (counters_of dm e)))
       (switch_events (detect_switches dm opp you))
   \<and> missed_counter_opportunities (detect_switches dm opp you) =
     map (missed_of dm) (filter (\<lambda>e. find_response you e (counters_of dm e) = None)
       (switch_events (detect_switches dm opp you)))
   \<and> length (response_delay_vs_opponent (detect_switches dm opp you))
       + length (missed_counter_opportunities (detect_switches dm opp you))
     = length (switch_events (detect_switches dm opp you))"
proof -
  let ?f = "\<lambda>e. map_option finish_response (find_response you e (counters_of dm e))"
  have n: "(\<lambda>e. ?f e = None) = (\<lambda>e. find_response you e (counters_of dm e) = None)"
    by (simp add: fun_eq_iff)
  have "length (List.map_filter ?f (find_switches opp))
      + length (filter (\<lambda>e. ?f e = None) (find_switches opp)) = length (find_switches opp)"
    by (rule length_map_filter_split)
  then show ?thesis
    by (simp add: detect_switches_def Let_def foldl_respond_step n)
qed

text \<open>
  The opponent goes from 1 to 7 knights at 420 and the viewer reaches 3 pikemen at 480:
  one response with a delay of 60 and no missed opportunity.
\<close>

lemma detect_switches_scenario:
  "map r_delay (response_delay_vs_opponent (detect_switches ex_dm opp_snapshots you_snapshots)) = [60]
   \<and> map r_your_line (response_delay_vs_opponent (detect_switches ex_dm opp_snapshots you_snapshots))
       = [''pikeman_line'']
   \<and> missed_counter_opportunities (detect_switches ex_dm opp_snapshots you_snapshots) = []
   \<and> map sw_delta (switch_events (detect_switches ex_dm opp_snapshots you_snapshots)) = [6]"
  by code_simp

section \<open>Properties of \<open>find_player\<close>\<close>

text \<open>
  Claim C9.  With a single player whose name matches the requested name, the name branch
  looks for another player with \<open>next\<close> and raises \<open>StopIteration\<close>; so does the position
  branch.  The default branch on the same list returns the sole player as its own opponent.
\<close>

theorem find_player_sole_player_name_match:
  "find_player [alice] (Some ''alice'') None = Inl StopIteration
   \<and> find_player [alice] None (Some 1) = Inl StopIteration
   \<and> find_player [alice] None None = Inr (alice, alice)"
  by code_simp

end
